theory Spec2Isabelle
  imports Complex_Main "HOL-Library.AList" "HOL-Library.Sublist"
begin

section \<open>Data model (models.py)\<close>

text \<open>
  The Python dataclasses become records. Python floats are modelled as exact reals:
  rounding is abstracted away, every comparison, branch and arithmetic operation of the
  source is kept. A \<open>datetime\<close> is only stored and copied by the engine, so it is an
  integer time stamp here. Fields that several dataclasses share (\<open>date\<close>, \<open>ticker\<close>,
  \<open>quantity\<close>) are written with the record's name in front. The field \<open>method\<close> of
  \<open>ClosedTrade\<close> is \<open>method_used\<close>, since the bare word is reserved in Isabelle.
\<close>

datatype TradeDirection = BUY | SELL

type_synonym datetime = int

record Trade =
  date :: datetime
  ticker :: string
  direction :: TradeDirection
  quantity :: real
  price :: real
  fee :: real
  amount :: real
  datetime_str :: string

record Lot =
  date :: datetime
  quantity :: real
  unit_cost :: real
  price_paid :: real
  fees_paid :: real

record ClosedTrade =
  ticker :: string
  date :: datetime
  quantity :: real
  sell_price :: real
  sell_fees :: real
  cost_basis :: real
  realized_profit :: real
  sale_proceeds :: real
  method_used :: string

text \<open>
  The instance fields of \<open>ProfitCalculator\<close>. The dictionary \<open>open_positions\<close> is an
  association list with distinct keys in insertion order, as a Python dict is.
\<close>

record ProfitCalculator =
  trades :: "Trade list"
  fees_correction :: real
  realized_profits :: "ClosedTrade list"
  open_positions :: "(string \<times> Lot list) list"

text \<open>The only exception the engine itself can raise: the division in the BUY branch.\<close>

datatype error = ZeroDivisionError

section \<open>The engine (calculator.py)\<close>

text \<open>Python's builtin \<open>sum\<close>: a left fold starting at 0.\<close>

definition sum_py :: "real list \<Rightarrow> real" where
  "sum_py xs = foldl (+) 0 xs"

text \<open>
  The BUY branch of \<open>_process_ticker\<close>: the lot appended to the ledger. The division by
  \<open>trade.quantity\<close> raises when the quantity is zero, so \<open>make_lot\<close> (the call of the
  \<open>Lot\<close> constructor) is only reached behind that test.
\<close>

definition make_lot :: "Trade \<Rightarrow> Lot" where
  "make_lot trade =
     \<lparr> Lot.date = Trade.date trade,
       Lot.quantity = Trade.quantity trade,
       unit_cost = (price trade * Trade.quantity trade + fee trade) / Trade.quantity trade,
       price_paid = price trade * Trade.quantity trade,
       fees_paid = fee trade \<rparr>"

definition new_lot :: "Trade \<Rightarrow> error + Lot" where
  "new_lot trade =
     (if Trade.quantity trade = 0 then Inl ZeroDivisionError else Inr (make_lot trade))"

text \<open>
  The FIFO \<open>while qty_to_sell > 0 and ledger\<close> loop. The state of the loop is
  \<open>(qty_to_sell, cost_basis, ledger)\<close>; \<open>ledger.pop(0)\<close> is \<open>tl\<close>, and the in-place
  update of \<open>head_lot.quantity\<close> rewrites the head of the list.
\<close>

function fifo_consume :: "real \<Rightarrow> real \<Rightarrow> Lot list \<Rightarrow> real \<times> real \<times> Lot list" where
  "fifo_consume qty_to_sell cb ledger =
     (if qty_to_sell > 0 \<and> ledger \<noteq> [] then
        (if Lot.quantity (hd ledger) \<le> qty_to_sell then
           fifo_consume (qty_to_sell - Lot.quantity (hd ledger))
                        (cb + Lot.quantity (hd ledger) * unit_cost (hd ledger))
                        (tl ledger)
         else
           fifo_consume 0
                        (cb + qty_to_sell * unit_cost (hd ledger))
                        ((hd ledger)\<lparr>Lot.quantity := Lot.quantity (hd ledger) - qty_to_sell\<rparr> # tl ledger))
      else (qty_to_sell, cb, ledger))"
  by pat_completeness auto
termination
  by (relation "measure (\<lambda>(q, cb, l). 2 * length l + (if q > 0 then 1 else 0))") auto

declare fifo_consume.simps [simp del]

text \<open>
  The AVG branch. The \<open>for lot in ledger\<close> loop scales every lot and collects the lots
  below \<open>1e-9\<close> in \<open>to_remove\<close>; \<open>ledger.remove(lot)\<close> deletes the first element equal
  to \<open>lot\<close> (dataclass equality compares the fields), which is \<open>remove1\<close>.
  The result is \<open>(cost_basis, ledger)\<close>.
\<close>

definition total_qty :: "Lot list \<Rightarrow> real" where
  "total_qty ledger = sum_py (map Lot.quantity ledger)"

definition total_cost :: "Lot list \<Rightarrow> real" where
  "total_cost ledger = sum_py (map (\<lambda>l. Lot.quantity l * unit_cost l) ledger)"

definition avg_consume :: "real \<Rightarrow> Lot list \<Rightarrow> real \<times> Lot list" where
  "avg_consume qty_to_sell ledger =
     (if total_qty ledger > 0 then
        (let avg_unit_cost = total_cost ledger / total_qty ledger;
             ratio = (total_qty ledger - qty_to_sell) / total_qty ledger;
             scaled = map (\<lambda>lot. lot\<lparr>Lot.quantity := Lot.quantity lot * ratio\<rparr>) ledger;
             to_remove = filter (\<lambda>lot. Lot.quantity lot < 1 / 10 ^ 9) scaled
         in (qty_to_sell * avg_unit_cost, foldl (\<lambda>l lot. remove1 lot l) scaled to_remove))
      else (0, ledger))"

text \<open>
  The dispatch on the method string inside the SELL branch: \<open>if method == 'FIFO'\<close>,
  \<open>elif method == 'AVG'\<close>, and no \<open>else\<close>, so any other string leaves
  \<open>cost_basis = 0.0\<close> and the ledger as it was.
\<close>

definition consume :: "string \<Rightarrow> real \<Rightarrow> Lot list \<Rightarrow> real \<times> Lot list" where
  "consume meth qty_to_sell ledger =
     (if meth = ''FIFO'' then
        (case fifo_consume qty_to_sell 0 ledger of (q, cb, ledger') \<Rightarrow> (cb, ledger'))
      else if meth = ''AVG'' then avg_consume qty_to_sell ledger
      else (0, ledger))"

text \<open>The \<open>ClosedTrade\<close> built at the end of the SELL branch.\<close>

definition closed_trade :: "string \<Rightarrow> string \<Rightarrow> Trade \<Rightarrow> real \<Rightarrow> ClosedTrade" where
  "closed_trade tkr meth trade cb =
     (let proceeds = (price trade * Trade.quantity trade) - fee trade
      in \<lparr> ClosedTrade.ticker = tkr,
           ClosedTrade.date = Trade.date trade,
           ClosedTrade.quantity = Trade.quantity trade,
           sell_price = price trade,
           sell_fees = fee trade,
           cost_basis = cb,
           realized_profit = proceeds - cb,
           sale_proceeds = proceeds,
           method_used = meth \<rparr>)"

text \<open>
  One iteration of \<open>for trade in trades\<close> in \<open>_process_ticker\<close>, on the local ledger and
  on \<open>self.realized_profits\<close>.
\<close>

definition process_trade ::
  "string \<Rightarrow> string \<Rightarrow> Trade \<Rightarrow> Lot list \<times> ClosedTrade list \<Rightarrow> error + (Lot list \<times> ClosedTrade list)" where
  "process_trade tkr meth trade st =
     (case st of (ledger, realized) \<Rightarrow>
        (case direction trade of
           BUY \<Rightarrow>
             (case new_lot trade of
                Inl e \<Rightarrow> Inl e
              | Inr lot \<Rightarrow> Inr (ledger @ [lot], realized))
         | SELL \<Rightarrow>
             (case consume meth (Trade.quantity trade) ledger of
                (cb, ledger') \<Rightarrow> Inr (ledger', realized @ [closed_trade tkr meth trade cb]))))"

text \<open>
  The whole loop. An exception leaves the records appended so far in
  \<open>self.realized_profits\<close> and loses the local ledger.
\<close>

fun process_trades ::
  "string \<Rightarrow> string \<Rightarrow> Trade list \<Rightarrow> Lot list \<times> ClosedTrade list \<Rightarrow> (error + Lot list) \<times> ClosedTrade list" where
  "process_trades tkr meth [] (ledger, realized) = (Inr ledger, realized)"
| "process_trades tkr meth (trade # rest) (ledger, realized) =
     (case process_trade tkr meth trade (ledger, realized) of
        Inl e \<Rightarrow> (Inl e, realized)
      | Inr st' \<Rightarrow> process_trades tkr meth rest st')"

text \<open>
  \<open>_process_ticker\<close>: a fresh ledger, the loop, then \<open>self.open_positions[ticker] = ledger\<close>
  (not reached when the loop raises).
\<close>

definition process_ticker ::
  "string \<Rightarrow> Trade list \<Rightarrow> string \<Rightarrow> ProfitCalculator \<Rightarrow> (error + unit) \<times> ProfitCalculator" where
  "process_ticker tkr ticker_trades meth self =
     (case process_trades tkr meth ticker_trades ([], realized_profits self) of
        (Inl e, realized) \<Rightarrow> (Inl e, self\<lparr>realized_profits := realized\<rparr>)
      | (Inr ledger, realized) \<Rightarrow>
          (Inr (), self\<lparr>realized_profits := realized,
                        open_positions := AList.update tkr ledger (open_positions self)\<rparr>))"

text \<open>
  The grouping loop of \<open>calculate\<close>: a ticker not yet in the dictionary gets an empty
  list first, then the trade is appended to the ticker's list.
\<close>

definition group_step :: "(string \<times> Trade list) list \<Rightarrow> Trade \<Rightarrow> (string \<times> Trade list) list" where
  "group_step d trade =
     (case map_of d (Trade.ticker trade) of
        None \<Rightarrow> AList.update (Trade.ticker trade) ([] @ [trade]) (AList.update (Trade.ticker trade) [] d)
      | Some ts \<Rightarrow> AList.update (Trade.ticker trade) (ts @ [trade]) d)"

definition trades_by_ticker :: "Trade list \<Rightarrow> (string \<times> Trade list) list" where
  "trades_by_ticker ts = foldl group_step [] ts"

text \<open>The loop over \<open>trades_by_ticker.items()\<close>; an exception ends it.\<close>

fun process_items ::
  "(string \<times> Trade list) list \<Rightarrow> string \<Rightarrow> ProfitCalculator \<Rightarrow> (error + unit) \<times> ProfitCalculator" where
  "process_items [] meth self = (Inr (), self)"
| "process_items ((tkr, ticker_trades) # items) meth self =
     (case process_ticker tkr ticker_trades meth self of
        (Inl e, self') \<Rightarrow> (Inl e, self')
      | (Inr u, self') \<Rightarrow> process_items items meth self')"

text \<open>
  \<open>calculate\<close>: resets both result fields, groups \<open>self.trades\<close> and processes every
  group. The result is the outcome (an exception or a normal return) and the state of
  the object afterwards.
\<close>

definition calculate :: "string \<Rightarrow> ProfitCalculator \<Rightarrow> (error + unit) \<times> ProfitCalculator" where
  "calculate meth self =
     (let self1 = self\<lparr>realized_profits := [], open_positions := []\<rparr>
      in process_items (trades_by_ticker (trades self1)) meth self1)"

section \<open>Test data (tests/test_calculator.py)\<close>

text \<open>
  \<open>create_trade\<close> of the test suite, the date given as a day number, and the three
  trades of \<open>test_fifo_multiple_buys\<close> and \<open>test_avg_cost\<close>.
\<close>

definition create_trade ::
  "datetime \<Rightarrow> string \<Rightarrow> TradeDirection \<Rightarrow> real \<Rightarrow> real \<Rightarrow> real \<Rightarrow> Trade" where
  "create_trade d tkr dir qty pr f =
     \<lparr> Trade.date = d, ticker = tkr, direction = dir, quantity = qty, price = pr, fee = f,
       amount = qty * pr, datetime_str = [] \<rparr>"

definition multiple_buys :: "Trade list" where
  "multiple_buys =
     [create_trade 1 ''AAPL'' BUY 10 100 0,
      create_trade 2 ''AAPL'' BUY 10 200 0,
      create_trade 3 ''AAPL'' SELL 15 180 0]"

text \<open>The ledger that the two purchases of \<open>multiple_buys\<close> leave, before the sale.\<close>

definition two_lots :: "Lot list" where
  "two_lots =
     [\<lparr> Lot.date = 1, quantity = 10, unit_cost = 100, price_paid = 1000, fees_paid = 0 \<rparr>,
      \<lparr> Lot.date = 2, quantity = 10, unit_cost = 200, price_paid = 2000, fees_paid = 0 \<rparr>]"

text \<open>The two trades of \<open>test_fifo_simple\<close>, and a calculator as \<open>__init__\<close> leaves it.\<close>

definition simple_trades :: "Trade list" where
  "simple_trades =
     [create_trade 1 ''AAPL'' BUY 10 100 5,
      create_trade 2 ''AAPL'' SELL 10 150 5]"

definition fresh_calculator :: ProfitCalculator where
  "fresh_calculator =
     \<lparr> trades = [], fees_correction = 0, realized_profits = [], open_positions = [] \<rparr>"

text \<open>
  A sale that leaves \<open>1 / 2 ^ 40\<close> of the purchased unit (these quantities are exact as
  floats too), and a sale of more than is held.
\<close>

definition dust_trades :: "Trade list" where
  "dust_trades =
     [create_trade 1 ''AAPL'' BUY 1 1 0,
      create_trade 2 ''AAPL'' SELL (1 - 1 / 2 ^ 40) 1 0]"

definition oversell_trades :: "Trade list" where
  "oversell_trades =
     [create_trade 1 ''AAPL'' BUY 10 100 0,
      create_trade 2 ''AAPL'' SELL 15 180 0]"

section \<open>Auxiliary notions\<close>

text \<open>
  The outputs of the per-security loop started on an empty ledger and no records: the
  ClosedTrade records it appends and the ledger it leaves (empty if it raised).
\<close>

definition ticker_closed :: "string \<Rightarrow> string \<Rightarrow> Trade list \<Rightarrow> ClosedTrade list" where
  "ticker_closed tkr meth ts = snd (process_trades tkr meth ts ([], []))"

definition ticker_ledger :: "string \<Rightarrow> string \<Rightarrow> Trade list \<Rightarrow> Lot list" where
  "ticker_ledger tkr meth ts =
     (case fst (process_trades tkr meth ts ([], [])) of Inl e \<Rightarrow> [] | Inr ledger \<Rightarrow> ledger)"

text \<open>No purchase divides by zero: the condition under which the engine cannot raise.\<close>

definition buys_ok :: "Trade list \<Rightarrow> bool" where
  "buys_ok ts = (\<forall>t\<in>set ts. direction t = BUY \<longrightarrow> Trade.quantity t \<noteq> 0)"

text \<open>
  What a ClosedTrade copies from the SELL trade it was built for, read on either side.
\<close>

definition is_sell :: "Trade \<Rightarrow> bool" where
  "is_sell t = (direction t = SELL)"

definition is_buy :: "Trade \<Rightarrow> bool" where
  "is_buy t = (direction t = BUY)"

definition sale_of_trade :: "Trade \<Rightarrow> string \<times> datetime \<times> real \<times> real \<times> real" where
  "sale_of_trade t = (Trade.ticker t, Trade.date t, Trade.quantity t, price t, fee t)"

definition sale_of_closed :: "ClosedTrade \<Rightarrow> string \<times> datetime \<times> real \<times> real \<times> real" where
  "sale_of_closed c =
     (ClosedTrade.ticker c, ClosedTrade.date c, ClosedTrade.quantity c, sell_price c, sell_fees c)"

text \<open>A sale on an empty ledger, a purchase, and a sale that the purchase covers.\<close>

definition sell_first :: "Trade list" where
  "sell_first =
     [create_trade 1 ''AAPL'' SELL 5 180 0,
      create_trade 2 ''AAPL'' BUY 10 100 0,
      create_trade 3 ''AAPL'' SELL 4 120 0]"

text \<open>Trades of two securities, each security alone and the two interleaved.\<close>

definition aapl_trades :: "Trade list" where
  "aapl_trades =
     [create_trade 1 ''AAPL'' BUY 10 100 0,
      create_trade 3 ''AAPL'' SELL 5 150 0]"

definition msft_trades :: "Trade list" where
  "msft_trades = [create_trade 2 ''MSFT'' BUY 3 50 0]"

definition interleaved :: "Trade list" where
  "interleaved =
     [create_trade 1 ''AAPL'' BUY 10 100 0,
      create_trade 2 ''MSFT'' BUY 3 50 0,
      create_trade 3 ''AAPL'' SELL 5 150 0]"


section \<open>Basic facts about the loops\<close>

lemmas engine_defs =
  calculate_def trades_by_ticker_def group_step_def process_ticker_def process_trade_def
  new_lot_def make_lot_def consume_def closed_trade_def avg_consume_def total_qty_def
  total_cost_def sum_py_def create_trade_def

lemma fifo_consume_Nil: "fifo_consume q cb [] = (q, cb, [])"
  by (simp add: fifo_consume.simps)

lemma fifo_consume_Cons:
  "fifo_consume q cb (h # rest) =
     (if q > 0 then
        (if Lot.quantity h \<le> q
         then fifo_consume (q - Lot.quantity h) (cb + Lot.quantity h * unit_cost h) rest
         else (0, cb + q * unit_cost h, h\<lparr>Lot.quantity := Lot.quantity h - q\<rparr> # rest))
      else (q, cb, h # rest))"
  by (subst fifo_consume.simps, simp) (simp add: fifo_consume.simps)

lemma remove_kept:
  "a \<notin> set rs \<Longrightarrow> foldl (\<lambda>l x. remove1 x l) (a # l) rs = a # foldl (\<lambda>l x. remove1 x l) l rs"
  by (induction rs arbitrary: l) auto

lemma remove_is_filter:
  "foldl (\<lambda>l x. remove1 x l) xs (filter P xs) = filter (\<lambda>x. \<not> P x) xs"
  by (induction xs) (auto simp: remove_kept)

lemma foldl_plus: "foldl (+) a xs = a + sum_list (xs :: real list)"
  by (induction xs arbitrary: a) auto

lemma sum_py_sum_list: "sum_py xs = sum_list xs"
  by (simp add: sum_py_def foldl_plus)

lemma avg_consume_filter:
  "avg_consume q ledger =
     (if total_qty ledger > 0 then
        (q * (total_cost ledger / total_qty ledger),
         filter (\<lambda>lot. \<not> Lot.quantity lot < 1 / 10 ^ 9)
           (map (\<lambda>lot. lot\<lparr>Lot.quantity := Lot.quantity lot * ((total_qty ledger - q) / total_qty ledger)\<rparr>) ledger))
      else (0, ledger))"
  by (simp add: avg_consume_def Let_def remove_is_filter)

lemma process_trade_BUY:
  "direction t = BUY \<Longrightarrow> Trade.quantity t \<noteq> 0 \<Longrightarrow>
   process_trade tkr m t (ledger, rp) = Inr (ledger @ [make_lot t], rp)"
  by (simp add: process_trade_def new_lot_def)

lemma process_trade_SELL:
  "direction t = SELL \<Longrightarrow>
   process_trade tkr m t (ledger, rp) =
     Inr (snd (consume m (Trade.quantity t) ledger),
          rp @ [closed_trade tkr m t (fst (consume m (Trade.quantity t) ledger))])"
  by (simp add: process_trade_def split: prod.splits)

lemma process_trade_BUY_zero:
  "direction t = BUY \<Longrightarrow> Trade.quantity t = 0 \<Longrightarrow>
   process_trade tkr m t (ledger, rp) = Inl ZeroDivisionError"
  by (simp add: process_trade_def new_lot_def)

lemma process_trades_acc:
  "process_trades tkr m ts (ledger, rp) =
     (fst (process_trades tkr m ts (ledger, [])), rp @ snd (process_trades tkr m ts (ledger, [])))"
proof (induction ts arbitrary: ledger rp)
  case Nil
  show ?case by simp
next
  case (Cons t ts)
  show ?case
  proof (cases "direction t")
    case BUY
    show ?thesis
    proof (cases "Trade.quantity t = 0")
      case True
      with BUY show ?thesis by (simp add: process_trade_BUY_zero)
    next
      case False
      with BUY show ?thesis using Cons.IH [of "ledger @ [make_lot t]" rp]
        by (simp add: process_trade_BUY)
    qed
  next
    case SELL
    let ?l = "snd (consume m (Trade.quantity t) ledger)"
    let ?c = "closed_trade tkr m t (fst (consume m (Trade.quantity t) ledger))"
    from SELL show ?thesis
      using Cons.IH [of ?l "rp @ [?c]"] Cons.IH [of ?l "[?c]"]
      by (simp add: process_trade_SELL)
  qed
qed

lemma process_trades_ok:
  "\<forall>t\<in>set ts. direction t = BUY \<longrightarrow> Trade.quantity t \<noteq> 0 \<Longrightarrow>
   \<exists>ledger'. fst (process_trades tkr m ts (ledger, rp)) = Inr ledger'"
proof (induction ts arbitrary: ledger rp)
  case Nil
  show ?case by simp
next
  case (Cons t ts)
  then show ?case
    by (cases "direction t") (simp_all add: process_trade_BUY process_trade_SELL)
qed

lemma process_ticker_ok:
  assumes "\<forall>t\<in>set ts. direction t = BUY \<longrightarrow> Trade.quantity t \<noteq> 0"
  shows "process_ticker tkr ts m self =
           (Inr (), self\<lparr>realized_profits := realized_profits self @ ticker_closed tkr m ts,
                         open_positions := AList.update tkr (ticker_ledger tkr m ts) (open_positions self)\<rparr>)"
proof -
  obtain l where l: "fst (process_trades tkr m ts ([], [])) = Inr l"
    using process_trades_ok [OF assms] by blast
  have "process_trades tkr m ts ([], realized_profits self) =
          (Inr l, realized_profits self @ ticker_closed tkr m ts)"
    by (subst process_trades_acc) (simp add: l ticker_closed_def)
  then show ?thesis
    by (simp add: process_ticker_def ticker_ledger_def l)
qed


lemma trades_by_ticker_Nil: "trades_by_ticker [] = []"
  by (simp add: trades_by_ticker_def)

lemma trades_by_ticker_snoc:
  "trades_by_ticker (ts @ [t]) = group_step (trades_by_ticker ts) t"
  by (simp add: trades_by_ticker_def)

lemma map_of_group_step:
  "map_of (group_step d t) k =
     (if k = Trade.ticker t
      then Some ((case map_of d k of None \<Rightarrow> [] | Some xs \<Rightarrow> xs) @ [t])
      else map_of d k)"
  by (simp add: group_step_def update_conv' split: option.splits)

lemma keys_group_step:
  "map fst (group_step d t) =
     (if Trade.ticker t \<in> set (map fst d) then map fst d else map fst d @ [Trade.ticker t])"
proof (cases "map_of d (Trade.ticker t)")
  case None
  then have "Trade.ticker t \<notin> set (map fst d)"
    by (simp add: map_of_eq_None_iff)
  with None show ?thesis
    by (simp add: group_step_def update_keys)
next
  case (Some xs)
  then have "Trade.ticker t \<in> set (map fst d)"
    by (metis map_of_eq_None_iff option.distinct(1) set_map)
  with Some show ?thesis
    by (simp add: group_step_def update_keys)
qed

lemma map_of_trades_by_ticker:
  "map_of (trades_by_ticker ts) k =
     (if k \<in> Trade.ticker ` set ts then Some (filter (\<lambda>t. Trade.ticker t = k) ts) else None)"
proof (induction ts rule: rev_induct)
  case Nil
  show ?case by (simp add: trades_by_ticker_Nil)
next
  case (snoc t ts)
  have none: "k \<notin> Trade.ticker ` set ts \<Longrightarrow> filter (\<lambda>t. Trade.ticker t = k) ts = []"
    by (auto simp: filter_empty_conv)
  show ?case
  proof (cases "k = Trade.ticker t")
    case True
    then show ?thesis
      using snoc.IH none by (simp add: trades_by_ticker_snoc map_of_group_step)
  next
    case False
    then show ?thesis
      using snoc.IH by (auto simp: trades_by_ticker_snoc map_of_group_step)
  qed
qed

lemma keys_trades_by_ticker:
  "distinct (map fst (trades_by_ticker ts)) \<and>
   set (map fst (trades_by_ticker ts)) = Trade.ticker ` set ts"
proof (induction ts rule: rev_induct)
  case Nil
  show ?case by (simp add: trades_by_ticker_Nil)
next
  case (snoc t ts)
  then show ?case
    by (auto simp: trades_by_ticker_snoc keys_group_step)
qed

lemma group_members:
  assumes "(k, tt) \<in> set (trades_by_ticker ts)"
  shows "tt = filter (\<lambda>t. Trade.ticker t = k) ts"
proof -
  have "map_of (trades_by_ticker ts) k = Some tt"
    using assms keys_trades_by_ticker [of ts] by simp
  then show ?thesis
    by (simp add: map_of_trades_by_ticker split: if_splits)
qed

lemma trades_by_ticker_single:
  assumes "\<forall>t\<in>set ts. Trade.ticker t = k" and "ts \<noteq> []"
  shows "trades_by_ticker ts = [(k, ts)]"
  using assms
proof (induction ts rule: rev_induct)
  case Nil
  then show ?case by simp
next
  case (snoc t ts)
  show ?case
  proof (cases "ts = []")
    case True
    with snoc.prems show ?thesis
      by (simp add: trades_by_ticker_def group_step_def)
  next
    case False
    with snoc have "trades_by_ticker ts = [(k, ts)]" by simp
    with snoc.prems show ?thesis
      by (simp add: trades_by_ticker_snoc group_step_def)
  qed
qed

lemma process_items_ok:
  assumes "\<forall>(k, tt)\<in>set G. buys_ok tt"
  shows "process_items G m self =
           (Inr (),
            self\<lparr>realized_profits :=
                   realized_profits self @ concat (map (\<lambda>(k, tt). ticker_closed k m tt) G),
                 open_positions :=
                   foldl (\<lambda>op (k, tt). AList.update k (ticker_ledger k m tt) op) (open_positions self) G\<rparr>)"
  using assms
proof (induction G arbitrary: self)
  case Nil
  show ?case by simp
next
  case (Cons g G)
  obtain k tt where g: "g = (k, tt)" by (cases g)
  from Cons.prems g have ok: "\<forall>t\<in>set tt. direction t = BUY \<longrightarrow> Trade.quantity t \<noteq> 0"
    by (simp add: buys_ok_def)
  from Cons.prems have rest: "\<forall>(k, tt)\<in>set G. buys_ok tt" by simp
  show ?case
    by (simp add: g process_ticker_ok [OF ok] Cons.IH [OF rest])
qed

lemma update_fresh:
  "k \<notin> fst ` set al \<Longrightarrow> AList.update k v al = al @ [(k, v)]"
  by (induction al) auto

lemma foldl_update_distinct:
  assumes "distinct (map fst G)" and "fst ` set acc \<inter> fst ` set G = {}"
  shows "foldl (\<lambda>op (k, tt). AList.update k (f k tt) op) acc G = acc @ map (\<lambda>(k, tt). (k, f k tt)) G"
  using assms
proof (induction G arbitrary: acc)
  case Nil
  show ?case by simp
next
  case (Cons g G)
  obtain k tt where g: "g = (k, tt)" by (cases g)
  from Cons.prems g have fresh: "k \<notin> fst ` set acc" by auto
  from Cons.prems g have d: "distinct (map fst G)" by simp
  from Cons.prems g have disj: "fst ` set (acc @ [(k, f k tt)]) \<inter> fst ` set G = {}"
    by auto
  show ?case
    using Cons.IH [OF d disj] by (simp add: g update_fresh [OF fresh])
qed

lemma calculate_ok:
  assumes "buys_ok (trades self)"
  shows "calculate m self =
           (Inr (),
            self\<lparr>realized_profits :=
                   concat (map (\<lambda>(k, tt). ticker_closed k m tt) (trades_by_ticker (trades self))),
                 open_positions :=
                   map (\<lambda>(k, tt). (k, ticker_ledger k m tt)) (trades_by_ticker (trades self))\<rparr>)"
proof -
  let ?G = "trades_by_ticker (trades self)"
  have ok: "\<forall>(k, tt)\<in>set ?G. buys_ok tt"
  proof (clarify)
    fix k tt assume "(k, tt) \<in> set ?G"
    then have "tt = filter (\<lambda>t. Trade.ticker t = k) (trades self)" by (rule group_members)
    with assms show "buys_ok tt" by (simp add: buys_ok_def)
  qed
  have d: "distinct (map fst ?G)" using keys_trades_by_ticker by blast
  have "foldl (\<lambda>op (k, tt). AList.update k (ticker_ledger k m tt) op) [] ?G =
          [] @ map (\<lambda>(k, tt). (k, ticker_ledger k m tt)) ?G"
    by (rule foldl_update_distinct [OF d]) simp
  then show ?thesis
    by (simp add: calculate_def process_items_ok [OF ok])
qed

lemma positive_buys_ok: "\<forall>t\<in>set ts. Trade.quantity t > 0 \<Longrightarrow> buys_ok ts"
  by (auto simp: buys_ok_def)

text \<open>When the engine raises: exactly when some purchase has quantity zero.\<close>

lemma error_unique: "(e::error) = ZeroDivisionError"
  by (cases e) simp

lemma process_trades_raises:
  "\<not> buys_ok ts \<Longrightarrow> fst (process_trades k m ts (ledger, rp)) = Inl ZeroDivisionError"
proof (induction ts arbitrary: ledger rp)
  case Nil
  then show ?case by (simp add: buys_ok_def)
next
  case (Cons t ts)
  show ?case
  proof (cases "direction t")
    case BUY
    show ?thesis
    proof (cases "Trade.quantity t = 0")
      case True
      with BUY show ?thesis by (simp add: process_trade_BUY_zero)
    next
      case False
      with BUY Cons.prems have "\<not> buys_ok ts" by (simp add: buys_ok_def)
      from Cons.IH [OF this] BUY False show ?thesis by (simp add: process_trade_BUY)
    qed
  next
    case SELL
    with Cons.prems have "\<not> buys_ok ts" by (simp add: buys_ok_def)
    from Cons.IH [OF this] SELL show ?thesis by (simp add: process_trade_SELL)
  qed
qed

lemma process_ticker_raises:
  "\<not> buys_ok ts \<Longrightarrow> fst (process_ticker k ts m self) = Inl ZeroDivisionError"
  using process_trades_raises [of ts k m "[]" "realized_profits self"]
  by (auto simp: process_ticker_def split: prod.splits sum.splits)

lemma process_items_raises:
  "\<exists>(k, tt)\<in>set G. \<not> buys_ok tt \<Longrightarrow> fst (process_items G m self) = Inl ZeroDivisionError"
proof (induction G arbitrary: self)
  case Nil
  then show ?case by simp
next
  case (Cons g G)
  obtain k tt where g: "g = (k, tt)" by (cases g)
  show ?case
  proof (cases "buys_ok tt")
    case False
    from process_ticker_raises [OF this, of k m self] show ?thesis
      by (auto simp: g split: prod.splits sum.splits)
  next
    case True
    with Cons.prems g have "\<exists>(k, tt)\<in>set G. \<not> buys_ok tt" by simp
    from Cons.IH [OF this] show ?thesis
      by (auto simp: g intro: error_unique split: prod.splits sum.splits)
  qed
qed

lemma calculate_returns_iff:
  "fst (calculate m self) = Inr () \<longleftrightarrow> buys_ok (trades self)"
proof
  assume "buys_ok (trades self)"
  then show "fst (calculate m self) = Inr ()" by (simp add: calculate_ok)
next
  assume r: "fst (calculate m self) = Inr ()"
  show "buys_ok (trades self)"
  proof (rule ccontr)
    assume "\<not> buys_ok (trades self)"
    then obtain t where t: "t \<in> set (trades self)" "direction t = BUY" "Trade.quantity t = 0"
      by (auto simp: buys_ok_def)
    let ?tt = "filter (\<lambda>u. Trade.ticker u = Trade.ticker t) (trades self)"
    have "map_of (trades_by_ticker (trades self)) (Trade.ticker t) = Some ?tt"
      using t(1) by (simp add: map_of_trades_by_ticker)
    then have "(Trade.ticker t, ?tt) \<in> set (trades_by_ticker (trades self))"
      by (rule map_of_SomeD)
    moreover have "\<not> buys_ok ?tt" using t by (auto simp: buys_ok_def)
    ultimately have "\<exists>(k, tt)\<in>set (trades_by_ticker (trades self)). \<not> buys_ok tt" by blast
    from process_items_raises [OF this, of m "self\<lparr>realized_profits := [], open_positions := []\<rparr>"]
    have "fst (calculate m self) = Inl ZeroDivisionError" by (simp add: calculate_def)
    with r show False by simp
  qed
qed

section \<open>Worked examples\<close>

text \<open>
  C4. BUY 10 @ 100, BUY 10 @ 200, SELL 15 @ 180 (all fees 0) on one security with method
  FIFO: \<open>calculate\<close> returns normally with exactly one ClosedTrade, of cost basis 2000 and
  realized profit 700, and the open position of the security is a single lot of 5 units
  at unit cost 200. The statement holds from any state of the calculator object.
\<close>

theorem fifo_multiple_buys:
  "calculate ''FIFO'' (self\<lparr>trades := multiple_buys\<rparr>) =
     (Inr (),
      self\<lparr>trades := multiple_buys,
           realized_profits :=
             [\<lparr> ClosedTrade.ticker = ''AAPL'', date = 3, quantity = 15, sell_price = 180,
                sell_fees = 0, cost_basis = 2000, realized_profit = 700,
                sale_proceeds = 2700, method_used = ''FIFO'' \<rparr>],
           open_positions :=
             [(''AAPL'', [\<lparr> Lot.date = 2, quantity = 5, unit_cost = 200,
                            price_paid = 2000, fees_paid = 0 \<rparr>])]\<rparr>)"
  by (simp add: engine_defs multiple_buys_def fifo_consume.simps)

text \<open>
  C5. The same three trades with method AVG: the two purchases leave the ledger
  \<open>two_lots\<close>, whose average unit cost \<open>total_cost / total_qty\<close> is 150; \<open>calculate\<close>
  returns normally with one ClosedTrade of cost basis 2250 and realized profit 450; the
  open position keeps both lots, each with its quantity multiplied by the same ratio
  \<open>(20 - 15) / 20\<close> and nothing else changed, and their quantities add up to 5.
\<close>

theorem avg_multiple_buys:
  "process_trades ''AAPL'' ''AVG'' (take 2 multiple_buys) ([], []) = (Inr two_lots, [])
   \<and> total_qty two_lots = 20
   \<and> total_cost two_lots / total_qty two_lots = 150
   \<and> calculate ''AVG'' (self\<lparr>trades := multiple_buys\<rparr>) =
       (Inr (),
        self\<lparr>trades := multiple_buys,
             realized_profits :=
               [\<lparr> ClosedTrade.ticker = ''AAPL'', date = 3, quantity = 15, sell_price = 180,
                  sell_fees = 0, cost_basis = 2250, realized_profit = 450,
                  sale_proceeds = 2700, method_used = ''AVG'' \<rparr>],
             open_positions :=
               [(''AAPL'',
                 map (\<lambda>lot. lot\<lparr>Lot.quantity := Lot.quantity lot * ((20 - 15) / 20)\<rparr>) two_lots)]\<rparr>)
   \<and> total_qty (map (\<lambda>lot. lot\<lparr>Lot.quantity := Lot.quantity lot * ((20 - 15) / 20)\<rparr>) two_lots) = 5"
  by (simp add: engine_defs multiple_buys_def two_lots_def)

section \<open>State across calls\<close>

lemma process_ticker_inputs:
  "trades (snd (process_ticker tkr tt m self)) = trades self \<and>
   fees_correction (snd (process_ticker tkr tt m self)) = fees_correction self"
  by (simp add: process_ticker_def split: prod.splits sum.splits)

lemma process_items_inputs:
  "trades (snd (process_items G m self)) = trades self \<and>
   fees_correction (snd (process_items G m self)) = fees_correction self"
proof (induction G arbitrary: self)
  case Nil
  show ?case by simp
next
  case (Cons g G)
  obtain k tt where g: "g = (k, tt)" by (cases g)
  obtain r self' where p: "process_ticker k tt m self = (r, self')" by (cases "process_ticker k tt m self")
  have keep: "trades self' = trades self \<and> fees_correction self' = fees_correction self"
    using process_ticker_inputs [of k tt m self] by (simp add: p)
  show ?case
  proof (cases r)
    case (Inl e)
    with p keep show ?thesis by (simp add: g)
  next
    case (Inr u)
    with p keep Cons.IH [of self'] show ?thesis by (simp add: g)
  qed
qed

lemma calculate_inputs:
  "trades (snd (calculate m self)) = trades self \<and>
   fees_correction (snd (calculate m self)) = fees_correction self"
  using process_items_inputs [of "trades_by_ticker (trades self)" m
                                 "self\<lparr>realized_profits := [], open_positions := []\<rparr>"]
  by (simp add: calculate_def)

lemma calculate_reads_inputs_only:
  assumes "trades s = trades s'" and "fees_correction s = fees_correction s'"
  shows "calculate m s = calculate m s'"
proof -
  have "s\<lparr>realized_profits := [], open_positions := []\<rparr> =
        s'\<lparr>realized_profits := [], open_positions := []\<rparr>"
    using assms by (cases s, cases s') simp
  then show ?thesis
    by (simp only: calculate_def Let_def assms(1))
qed

text \<open>
  C7. The outcome and the state that \<open>calculate\<close> leaves do not depend on what an
  earlier call left in the two result fields: whatever ClosedTrade sequence and whatever
  open-position dictionary the object holds before the call, the call gives what it
  gives on the object without them, since both fields are reset at its start. Hence
  two successive calls with the same method on the same object agree: the second call,
  started from the state the first one left, has the same outcome and leaves the same
  ClosedTrade sequence and the same open-position dictionary as the first.
\<close>

theorem calculate_again:
  "calculate m (self\<lparr>realized_profits := stale_profits, open_positions := stale_positions\<rparr>) =
     calculate m self \<and>
   calculate m (snd (calculate m self)) = calculate m self"
proof
  show "calculate m (self\<lparr>realized_profits := stale_profits, open_positions := stale_positions\<rparr>) =
          calculate m self"
    by (rule calculate_reads_inputs_only) simp_all
  show "calculate m (snd (calculate m self)) = calculate m self"
    by (rule calculate_reads_inputs_only) (simp_all add: calculate_inputs)
qed

section \<open>The open-position dictionary\<close>

text \<open>
  C10. Whenever \<open>calculate\<close> returns normally, the keys of \<open>open_positions\<close> are exactly
  the security identifiers of the input trades, each one once; a security whose lots
  were all consumed, or that only had sales, keeps its key, with an empty ledger (as for
  \<open>simple_trades\<close> in the second theorem). And \<open>calculate\<close> does return normally for
  trades with positive quantities.
\<close>

theorem open_positions_keys:
  "(fst (calculate m self) = Inr () \<longrightarrow>
      distinct (map fst (open_positions (snd (calculate m self)))) \<and>
      set (map fst (open_positions (snd (calculate m self)))) = Trade.ticker ` set (trades self)) \<and>
   ((\<forall>t\<in>set (trades self). 0 < Trade.quantity t) \<longrightarrow> fst (calculate m self) = Inr ())"
proof -
  have k: "fst \<circ> (\<lambda>(k, tt). (k, ticker_ledger k m tt)) = fst"
    by auto
  have "distinct (map fst (open_positions (snd (calculate m self)))) \<and>
        set (map fst (open_positions (snd (calculate m self)))) = Trade.ticker ` set (trades self)"
    if "buys_ok (trades self)"
    using keys_trades_by_ticker [of "trades self"] k
    by (simp add: calculate_ok [OF that] del: set_map)
  then show ?thesis
    using positive_buys_ok [of "trades self"] by (auto simp: calculate_returns_iff)
qed

theorem open_positions_keys_witness:
  "map Trade.quantity (trades (fresh_calculator\<lparr>trades := simple_trades\<rparr>)) = [10, 10] \<and>
   fst (calculate ''FIFO'' (fresh_calculator\<lparr>trades := simple_trades\<rparr>)) = Inr () \<and>
   distinct (map fst (open_positions (snd (calculate ''FIFO'' (fresh_calculator\<lparr>trades := simple_trades\<rparr>))))) \<and>
   set (map fst (open_positions (snd (calculate ''FIFO'' (fresh_calculator\<lparr>trades := simple_trades\<rparr>))))) =
     Trade.ticker ` set (trades (fresh_calculator\<lparr>trades := simple_trades\<rparr>)) \<and>
   open_positions (snd (calculate ''FIFO'' (fresh_calculator\<lparr>trades := simple_trades\<rparr>))) = [(''AAPL'', [])]"
proof -
  have h: "\<forall>t\<in>set (trades (fresh_calculator\<lparr>trades := simple_trades\<rparr>)). 0 < Trade.quantity t"
    by (simp add: simple_trades_def create_trade_def)
  have e: "open_positions (snd (calculate ''FIFO'' (fresh_calculator\<lparr>trades := simple_trades\<rparr>))) = [(''AAPL'', [])]"
    by (simp add: engine_defs simple_trades_def fresh_calculator_def fifo_consume.simps)
  have q: "map Trade.quantity (trades (fresh_calculator\<lparr>trades := simple_trades\<rparr>)) = [10, 10]"
    by (simp add: simple_trades_def create_trade_def)
  show ?thesis
    using h q e
      open_positions_keys [where m = "''FIFO''" and self = "fresh_calculator\<lparr>trades := simple_trades\<rparr>"]
    by blast
qed

section \<open>One record per sale\<close>

lemma sale_of_closed_trade:
  "sale_of_closed (closed_trade (Trade.ticker t) m t cb) = sale_of_trade t"
  by (simp add: sale_of_closed_def sale_of_trade_def closed_trade_def Let_def)

lemma process_trades_sales:
  assumes "buys_ok ts" and "\<forall>t\<in>set ts. Trade.ticker t = k"
  shows "map sale_of_closed (snd (process_trades k m ts (ledger, rp))) =
           map sale_of_closed rp @ map sale_of_trade (filter is_sell ts)"
  using assms
proof (induction ts arbitrary: ledger rp)
  case Nil
  show ?case by simp
next
  case (Cons t ts)
  from Cons.prems have ok: "buys_ok ts" and tk: "\<forall>t\<in>set ts. Trade.ticker t = k"
    and k: "Trade.ticker t = k"
    by (simp_all add: buys_ok_def)
  show ?case
  proof (cases "direction t")
    case BUY
    with Cons.prems have "Trade.quantity t \<noteq> 0" by (simp add: buys_ok_def)
    with BUY show ?thesis
      using Cons.IH [OF ok tk] by (simp add: process_trade_BUY is_sell_def)
  next
    case SELL
    then show ?thesis
      using Cons.IH [OF ok tk] sale_of_closed_trade [of t m] k
      by (simp add: process_trade_SELL is_sell_def)
  qed
qed

lemma ticker_closed_sales:
  assumes "buys_ok ts" and "\<forall>t\<in>set ts. Trade.ticker t = k"
  shows "map sale_of_closed (ticker_closed k m ts) = map sale_of_trade (filter is_sell ts)"
  using process_trades_sales [OF assms, of m "[]" "[]"] by (simp add: ticker_closed_def)

lemma count_update:
  "map_of d k = Some xs \<Longrightarrow>
   sum_list (map (\<lambda>(k, tt). f tt) (AList.update k v d)) + f xs =
   sum_list (map (\<lambda>(k, tt). f tt) d) + (f v :: nat)"
  by (induction d) (auto split: if_splits)

lemma update_last:
  "k \<notin> fst ` set al \<Longrightarrow> AList.update k v (al @ [(k, w)]) = al @ [(k, v)]"
  by (induction al) auto

lemma count_group_step:
  "sum_list (map (\<lambda>(k, tt). length (filter P tt)) (group_step d t)) =
   sum_list (map (\<lambda>(k, tt). length (filter P tt)) d) + length (filter P [t])"
proof (cases "map_of d (Trade.ticker t)")
  case None
  then have fresh: "Trade.ticker t \<notin> fst ` set d"
    by (simp add: map_of_eq_None_iff)
  have "AList.update (Trade.ticker t) [t] (AList.update (Trade.ticker t) [] d) = d @ [(Trade.ticker t, [t])]"
    by (simp add: update_fresh [OF fresh] update_last [OF fresh])
  with None show ?thesis by (simp add: group_step_def)
next
  case (Some xs)
  then show ?thesis
    using count_update [OF Some, of "\<lambda>tt. length (filter P tt)" "xs @ [t]"]
    by (simp add: group_step_def)
qed

lemma count_trades_by_ticker:
  "sum_list (map (\<lambda>(k, tt). length (filter P tt)) (trades_by_ticker ts)) = length (filter P ts)"
proof (induction ts rule: rev_induct)
  case Nil
  show ?case by (simp add: trades_by_ticker_Nil)
next
  case (snoc t ts)
  then show ?case
    by (simp add: trades_by_ticker_snoc count_group_step)
qed

lemma length_concat_groups:
  assumes "\<forall>(k, tt)\<in>set G. length (F k tt) = length (filter P tt)"
  shows "length (concat (map (\<lambda>(k, tt). F k tt) G)) =
         sum_list (map (\<lambda>(k, tt). length (filter P tt)) G)"
  using assms by (induction G) auto

lemma sales_concat_groups:
  assumes "\<forall>(k, tt)\<in>set G. map sale_of_closed (F k tt) = map sale_of_trade (filter is_sell tt)"
  shows "map sale_of_closed (concat (map (\<lambda>(k, tt). F k tt) G)) =
         map sale_of_trade (filter is_sell (concat (map snd G)))"
  using assms by (induction G) auto

text \<open>
  C6. For trades with positive quantities and any method string (FIFO and AVG among
  them), \<open>calculate\<close> returns normally and \<open>realized_profits\<close> has exactly as many
  records as the input has SELL trades; more precisely, read in the order in which the
  securities are processed, the records are those of the SELL trades, one for each and
  none for a BUY, however many lots a sale consumes.
\<close>

theorem one_closed_trade_per_sell:
  assumes "\<forall>t\<in>set (trades self). Trade.quantity t > 0"
  shows "fst (calculate m self) = Inr () \<and>
         length (realized_profits (snd (calculate m self))) =
           length (filter is_sell (trades self)) \<and>
         map sale_of_closed (realized_profits (snd (calculate m self))) =
           map sale_of_trade (filter is_sell (concat (map snd (trades_by_ticker (trades self)))))"
proof -
  let ?G = "trades_by_ticker (trades self)"
  have ok: "buys_ok (trades self)" using assms by (rule positive_buys_ok)
  have sales: "\<forall>(k, tt)\<in>set ?G. map sale_of_closed (ticker_closed k m tt) = map sale_of_trade (filter is_sell tt)"
  proof clarify
    fix k tt assume "(k, tt) \<in> set ?G"
    then have tt: "tt = filter (\<lambda>t. Trade.ticker t = k) (trades self)" by (rule group_members)
    have "buys_ok tt" using ok by (simp add: tt buys_ok_def)
    moreover have "\<forall>t\<in>set tt. Trade.ticker t = k" by (simp add: tt)
    ultimately show "map sale_of_closed (ticker_closed k m tt) = map sale_of_trade (filter is_sell tt)"
      by (rule ticker_closed_sales)
  qed
  have len: "\<forall>(k, tt)\<in>set ?G. length (ticker_closed k m tt) = length (filter is_sell tt)"
  proof clarify
    fix k tt assume "(k, tt) \<in> set ?G"
    with sales have "map sale_of_closed (ticker_closed k m tt) = map sale_of_trade (filter is_sell tt)"
      by blast
    then have "length (map sale_of_closed (ticker_closed k m tt)) = length (map sale_of_trade (filter is_sell tt))"
      by simp
    then show "length (ticker_closed k m tt) = length (filter is_sell tt)" by simp
  qed
  have "length (concat (map (\<lambda>(k, tt). ticker_closed k m tt) ?G)) = length (filter is_sell (trades self))"
    using length_concat_groups [of ?G "\<lambda>k tt. ticker_closed k m tt" is_sell, OF len]
    by (simp add: count_trades_by_ticker)
  moreover have "map sale_of_closed (concat (map (\<lambda>(k, tt). ticker_closed k m tt) ?G)) =
                 map sale_of_trade (filter is_sell (concat (map snd ?G)))"
    by (rule sales_concat_groups [OF sales])
  ultimately show ?thesis
    by (simp add: calculate_ok [OF ok])
qed

theorem one_closed_trade_per_sell_witness:
  "map Trade.quantity (trades (fresh_calculator\<lparr>trades := sell_first\<rparr>)) = [5, 10, 4] \<and>
   fst (calculate ''AVG'' (fresh_calculator\<lparr>trades := sell_first\<rparr>)) = Inr () \<and>
   length (realized_profits (snd (calculate ''AVG'' (fresh_calculator\<lparr>trades := sell_first\<rparr>)))) = 2 \<and>
   map cost_basis (realized_profits (snd (calculate ''AVG'' (fresh_calculator\<lparr>trades := sell_first\<rparr>)))) = [0, 400]"
proof -
  have h: "\<forall>t\<in>set (trades (fresh_calculator\<lparr>trades := sell_first\<rparr>)). Trade.quantity t > 0"
    by (simp add: sell_first_def create_trade_def)
  have q: "map Trade.quantity (trades (fresh_calculator\<lparr>trades := sell_first\<rparr>)) = [5, 10, 4]"
    by (simp add: sell_first_def create_trade_def)
  have n: "length (filter is_sell (trades (fresh_calculator\<lparr>trades := sell_first\<rparr>))) = 2"
    by (simp add: sell_first_def create_trade_def is_sell_def)
  have c: "map cost_basis (realized_profits (snd (calculate ''AVG'' (fresh_calculator\<lparr>trades := sell_first\<rparr>)))) = [0, 400]"
    by (simp add: engine_defs sell_first_def fresh_calculator_def)
  show ?thesis
    using q n c one_closed_trade_per_sell [OF h, of "''AVG''"] by simp
qed

section \<open>A method string that is neither FIFO nor AVG\<close>

lemma consume_other:
  "m \<noteq> ''FIFO'' \<Longrightarrow> m \<noteq> ''AVG'' \<Longrightarrow> consume m q ledger = (0, ledger)"
  by (simp add: consume_def)

lemma process_trades_other:
  assumes "m \<noteq> ''FIFO''" and "m \<noteq> ''AVG''" and "buys_ok ts"
  shows "process_trades k m ts (ledger, rp) =
           (Inr (ledger @ map make_lot (filter is_buy ts)),
            rp @ map (\<lambda>t. closed_trade k m t 0) (filter is_sell ts))"
  using assms(3)
proof (induction ts arbitrary: ledger rp)
  case Nil
  show ?case by simp
next
  case (Cons t ts)
  from Cons.prems have ok: "buys_ok ts" by (simp add: buys_ok_def)
  show ?case
  proof (cases "direction t")
    case BUY
    with Cons.prems have "Trade.quantity t \<noteq> 0" by (simp add: buys_ok_def)
    with BUY show ?thesis
      using Cons.IH [OF ok] by (simp add: process_trade_BUY is_sell_def is_buy_def)
  next
    case SELL
    then show ?thesis
      using Cons.IH [OF ok] consume_other [OF assms(1,2)]
      by (simp add: process_trade_SELL is_sell_def is_buy_def)
  qed
qed

text \<open>
  C1 as stated fails: with the method \<open>LIFO\<close> the two trades of \<open>simple_trades\<close> do not
  make \<open>calculate\<close> fail. It returns normally, with a ClosedTrade of cost basis 0 for the
  sale and the purchased lot still open.
\<close>

theorem unknown_method_counterexample:
  "fst (calculate ''LIFO'' (fresh_calculator\<lparr>trades := simple_trades\<rparr>)) = Inr () \<and>
   realized_profits (snd (calculate ''LIFO'' (fresh_calculator\<lparr>trades := simple_trades\<rparr>))) =
     [\<lparr> ClosedTrade.ticker = ''AAPL'', date = 2, quantity = 10, sell_price = 150,
        sell_fees = 5, cost_basis = 0, realized_profit = 1495,
        sale_proceeds = 1495, method_used = ''LIFO'' \<rparr>] \<and>
   open_positions (snd (calculate ''LIFO'' (fresh_calculator\<lparr>trades := simple_trades\<rparr>))) =
     [(''AAPL'', [\<lparr> Lot.date = 1, quantity = 10, unit_cost = 201 / 2,
                    price_paid = 1000, fees_paid = 5 \<rparr>])]"
  by (simp add: engine_defs simple_trades_def fresh_calculator_def)

text \<open>
  C1, amended. For trades with positive quantities and a method string that is neither
  \<open>FIFO\<close> nor \<open>AVG\<close>, \<open>calculate\<close> does not fail: it returns normally, appends for every
  SELL trade a ClosedTrade with cost basis 0 that carries the given method string, and
  leaves every BUY trade as an unconsumed lot in the open position of its security.
\<close>

theorem unknown_method_runs:
  assumes "m \<noteq> ''FIFO''" and "m \<noteq> ''AVG''"
    and "\<forall>t\<in>set (trades self). Trade.quantity t > 0"
  shows "calculate m self =
           (Inr (),
            self\<lparr>realized_profits :=
                   concat (map (\<lambda>(k, tt). map (\<lambda>t. closed_trade k m t 0) (filter is_sell tt))
                               (trades_by_ticker (trades self))),
                 open_positions :=
                   map (\<lambda>(k, tt). (k, map make_lot (filter is_buy tt)))
                       (trades_by_ticker (trades self))\<rparr>)"
proof -
  let ?G = "trades_by_ticker (trades self)"
  have ok: "buys_ok (trades self)" using assms(3) by (rule positive_buys_ok)
  have g: "buys_ok tt" if "(k, tt) \<in> set ?G" for k tt
    using group_members [OF that] ok by (simp add: buys_ok_def)
  have c: "map (\<lambda>(k, tt). ticker_closed k m tt) ?G =
           map (\<lambda>(k, tt). map (\<lambda>t. closed_trade k m t 0) (filter is_sell tt)) ?G"
    using g by (auto simp: ticker_closed_def process_trades_other [OF assms(1,2)])
  have l: "map (\<lambda>(k, tt). (k, ticker_ledger k m tt)) ?G =
           map (\<lambda>(k, tt). (k, map make_lot (filter is_buy tt))) ?G"
    using g by (auto simp: ticker_ledger_def process_trades_other [OF assms(1,2)])
  show ?thesis
    by (simp only: calculate_ok [OF ok] c l)
qed

theorem unknown_method_runs_witness:
  "''LIFO'' \<noteq> ''FIFO'' \<and> ''LIFO'' \<noteq> ''AVG'' \<and>
   map Trade.quantity (trades (fresh_calculator\<lparr>trades := simple_trades\<rparr>)) = [10, 10] \<and>
   calculate ''LIFO'' (fresh_calculator\<lparr>trades := simple_trades\<rparr>) =
     (Inr (),
      fresh_calculator\<lparr>trades := simple_trades,
        realized_profits := [closed_trade ''AAPL'' ''LIFO'' (simple_trades ! 1) 0],
        open_positions := [(''AAPL'', [make_lot (simple_trades ! 0)])]\<rparr>)"
proof -
  have h: "\<forall>t\<in>set (trades (fresh_calculator\<lparr>trades := simple_trades\<rparr>)). Trade.quantity t > 0"
    by (simp add: simple_trades_def create_trade_def)
  have g: "trades_by_ticker simple_trades = [(''AAPL'', simple_trades)]"
    by (simp add: trades_by_ticker_def group_step_def simple_trades_def create_trade_def)
  have s: "filter is_sell simple_trades = [simple_trades ! 1]"
    and b: "filter is_buy simple_trades = [simple_trades ! 0]"
    by (simp_all add: simple_trades_def create_trade_def is_sell_def is_buy_def)
  have q: "map Trade.quantity (trades (fresh_calculator\<lparr>trades := simple_trades\<rparr>)) = [10, 10]"
    by (simp add: simple_trades_def create_trade_def)
  show ?thesis
    using unknown_method_runs [OF _ _ h, of "''LIFO''"] q by (simp add: g s b)
qed

section \<open>Securities do not interact\<close>

lemma process_trades_closed_ticker:
  "c \<in> set (snd (process_trades k m ts (ledger, rp))) \<Longrightarrow> c \<in> set rp \<or> ClosedTrade.ticker c = k"
proof (induction ts arbitrary: ledger rp)
  case Nil
  then show ?case by simp
next
  case (Cons t ts)
  show ?case
  proof (cases "direction t")
    case BUY
    show ?thesis
    proof (cases "Trade.quantity t = 0")
      case True
      with BUY Cons.prems show ?thesis by (simp add: process_trade_BUY_zero)
    next
      case False
      with BUY Cons.prems show ?thesis
        using Cons.IH [of "ledger @ [make_lot t]" rp] by (simp add: process_trade_BUY)
    qed
  next
    case SELL
    let ?l = "snd (consume m (Trade.quantity t) ledger)"
    let ?c = "closed_trade k m t (fst (consume m (Trade.quantity t) ledger))"
    from SELL Cons.prems have "c \<in> set (rp @ [?c]) \<or> ClosedTrade.ticker c = k"
      using Cons.IH [of ?l "rp @ [?c]"] by (simp add: process_trade_SELL)
    then show ?thesis by (auto simp: closed_trade_def Let_def)
  qed
qed

lemma ticker_closed_ticker:
  "c \<in> set (ticker_closed k m ts) \<Longrightarrow> ClosedTrade.ticker c = k"
  using process_trades_closed_ticker [of c k m ts "[]" "[]"] by (simp add: ticker_closed_def)

lemma filter_concat_groups:
  assumes "distinct (map fst G)"
    and "\<forall>(k', tt)\<in>set G. \<forall>c\<in>set (F k' tt). ClosedTrade.ticker c = k'"
  shows "filter (\<lambda>c. ClosedTrade.ticker c = k) (concat (map (\<lambda>(k', tt). F k' tt) G)) =
           (case map_of G k of None \<Rightarrow> [] | Some tt \<Rightarrow> F k tt)"
  using assms
proof (induction G)
  case Nil
  show ?case by simp
next
  case (Cons g G)
  obtain k' tt where g: "g = (k', tt)" by (cases g)
  from Cons.prems g have d: "distinct (map fst G)" and fresh: "k' \<notin> fst ` set G"
    and rest: "\<forall>(k', tt)\<in>set G. \<forall>c\<in>set (F k' tt). ClosedTrade.ticker c = k'"
    and here: "\<forall>c\<in>set (F k' tt). ClosedTrade.ticker c = k'"
    by auto
  show ?case
  proof (cases "k' = k")
    case True
    with fresh have "map_of G k = None" by (simp add: map_of_eq_None_iff)
    with Cons.IH [OF d rest] have "filter (\<lambda>c. ClosedTrade.ticker c = k) (concat (map (\<lambda>(k', tt). F k' tt) G)) = []"
      by simp
    moreover have "filter (\<lambda>c. ClosedTrade.ticker c = k) (F k' tt) = F k' tt"
      using here True by (simp add: filter_id_conv)
    ultimately show ?thesis using True by (simp add: g)
  next
    case False
    with here have "filter (\<lambda>c. ClosedTrade.ticker c = k) (F k' tt) = []"
      by (auto simp: filter_empty_conv)
    with False show ?thesis using Cons.IH [OF d rest] by (simp add: g)
  qed
qed

lemma map_of_ledgers:
  "map_of (map (\<lambda>(k, tt). (k, f k tt)) G) k = map_option (f k) (map_of G k)"
  by (induction G) auto

lemma calculate_per_ticker:
  assumes "buys_ok (trades self)"
  shows "filter (\<lambda>c. ClosedTrade.ticker c = k) (realized_profits (snd (calculate m self))) =
           (if k \<in> Trade.ticker ` set (trades self)
            then ticker_closed k m (filter (\<lambda>t. Trade.ticker t = k) (trades self)) else [])"
    and "map_of (open_positions (snd (calculate m self))) k =
           (if k \<in> Trade.ticker ` set (trades self)
            then Some (ticker_ledger k m (filter (\<lambda>t. Trade.ticker t = k) (trades self))) else None)"
proof -
  let ?G = "trades_by_ticker (trades self)"
  have d: "distinct (map fst ?G)" using keys_trades_by_ticker by blast
  have t: "\<forall>(k', tt)\<in>set ?G. \<forall>c\<in>set (ticker_closed k' m tt). ClosedTrade.ticker c = k'"
    using ticker_closed_ticker by blast
  show "filter (\<lambda>c. ClosedTrade.ticker c = k) (realized_profits (snd (calculate m self))) =
           (if k \<in> Trade.ticker ` set (trades self)
            then ticker_closed k m (filter (\<lambda>t. Trade.ticker t = k) (trades self)) else [])"
    using filter_concat_groups [of ?G "\<lambda>k tt. ticker_closed k m tt" k, OF d t]
    by (simp add: calculate_ok [OF assms] map_of_trades_by_ticker)
  show "map_of (open_positions (snd (calculate m self))) k =
           (if k \<in> Trade.ticker ` set (trades self)
            then Some (ticker_ledger k m (filter (\<lambda>t. Trade.ticker t = k) (trades self))) else None)"
    by (simp add: calculate_ok [OF assms] map_of_ledgers map_of_trades_by_ticker)
qed

lemma calculate_alone:
  assumes "buys_ok xs" and "\<forall>t\<in>set xs. Trade.ticker t = k"
  shows "realized_profits (snd (calculate m (self\<lparr>trades := xs\<rparr>))) = ticker_closed k m xs"
    and "map_of (open_positions (snd (calculate m (self\<lparr>trades := xs\<rparr>)))) k =
           (if xs = [] then None else Some (ticker_ledger k m xs))"
proof -
  have ok: "buys_ok (trades (self\<lparr>trades := xs\<rparr>))" using assms(1) by simp
  have c: "calculate m (self\<lparr>trades := xs\<rparr>) =
             (Inr (),
              self\<lparr>trades := xs,
                   realized_profits := concat (map (\<lambda>(k, tt). ticker_closed k m tt) (trades_by_ticker xs)),
                   open_positions := map (\<lambda>(k, tt). (k, ticker_ledger k m tt)) (trades_by_ticker xs)\<rparr>)"
    using calculate_ok [OF ok, of m] by simp
  have g: "trades_by_ticker xs = (if xs = [] then [] else [(k, xs)])"
    using trades_by_ticker_single [OF assms(2)] by (simp add: trades_by_ticker_Nil)
  have e: "ticker_closed k m [] = []" by (simp add: ticker_closed_def)
  show "realized_profits (snd (calculate m (self\<lparr>trades := xs\<rparr>))) = ticker_closed k m xs"
    unfolding c g using e by simp
  show "map_of (open_positions (snd (calculate m (self\<lparr>trades := xs\<rparr>)))) k =
           (if xs = [] then None else Some (ticker_ledger k m xs))"
    unfolding c g by simp
qed

lemma shuffle_side:
  assumes "zs \<in> shuffles xs ys"
    and "\<forall>t\<in>set xs. Trade.ticker t = a" and "\<forall>t\<in>set ys. Trade.ticker t \<noteq> a"
  shows "filter (\<lambda>t. Trade.ticker t = a) zs = xs"
    and "a \<in> Trade.ticker ` set zs \<longleftrightarrow> xs \<noteq> []"
proof -
  have "filter (\<lambda>t. Trade.ticker t = a) zs \<in> filter (\<lambda>t. Trade.ticker t = a) ` shuffles xs ys"
    using assms(1) by blast
  also have "\<dots> = shuffles (filter (\<lambda>t. Trade.ticker t = a) xs) (filter (\<lambda>t. Trade.ticker t = a) ys)"
    by (rule filter_shuffles)
  also have "filter (\<lambda>t. Trade.ticker t = a) xs = xs" using assms(2) by (simp add: filter_id_conv)
  also have "filter (\<lambda>t. Trade.ticker t = a) ys = []" using assms(3) by (simp add: filter_empty_conv)
  finally show "filter (\<lambda>t. Trade.ticker t = a) zs = xs" by simp
  have "set zs = set xs \<union> set ys" using assms(1) by (rule set_shuffles)
  then show "a \<in> Trade.ticker ` set zs \<longleftrightarrow> xs \<noteq> []"
    using assms(2,3) by (cases xs) auto
qed

lemma interleaved_side:
  assumes "zs \<in> shuffles xs ys"
    and "\<forall>t\<in>set xs. Trade.ticker t = a" and "\<forall>t\<in>set ys. Trade.ticker t \<noteq> a"
    and "buys_ok xs" and "buys_ok ys"
  shows "filter (\<lambda>c. ClosedTrade.ticker c = a) (realized_profits (snd (calculate m (self\<lparr>trades := zs\<rparr>)))) =
           realized_profits (snd (calculate m (self\<lparr>trades := xs\<rparr>)))"
    and "map_of (open_positions (snd (calculate m (self\<lparr>trades := zs\<rparr>)))) a =
           map_of (open_positions (snd (calculate m (self\<lparr>trades := xs\<rparr>)))) a"
proof -
  have "set zs = set xs \<union> set ys" using assms(1) by (rule set_shuffles)
  with assms(4,5) have ok: "buys_ok (trades (self\<lparr>trades := zs\<rparr>))"
    by (auto simp: buys_ok_def)
  note side = shuffle_side [OF assms(1,2,3)]
  have e: "ticker_closed a m [] = []" by (simp add: ticker_closed_def)
  show "filter (\<lambda>c. ClosedTrade.ticker c = a) (realized_profits (snd (calculate m (self\<lparr>trades := zs\<rparr>)))) =
           realized_profits (snd (calculate m (self\<lparr>trades := xs\<rparr>)))"
    using calculate_per_ticker(1) [OF ok, where k = a and m = m] calculate_alone(1) [OF assms(4,2), where m = m and self = self] side e
    by (cases "xs = []") simp_all
  show "map_of (open_positions (snd (calculate m (self\<lparr>trades := zs\<rparr>)))) a =
           map_of (open_positions (snd (calculate m (self\<lparr>trades := xs\<rparr>)))) a"
    using calculate_per_ticker(2) [OF ok, where k = a and m = m] calculate_alone(2) [OF assms(4,2), where m = m and self = self] side
    by (cases "xs = []") simp_all
qed

text \<open>
  C8. Let \<open>xs\<close> be trades of security \<open>a\<close> and \<open>ys\<close> trades of another security \<open>b\<close>, all
  with positive quantities, and \<open>zs\<close> any interleaving of the two that keeps the order
  inside each. Then \<open>calculate\<close> on \<open>zs\<close> returns normally, its ClosedTrade records of
  \<open>a\<close> are the records of \<open>calculate\<close> on \<open>xs\<close> alone, those of \<open>b\<close> the records of
  \<open>calculate\<close> on \<open>ys\<close> alone, and the open lots of each security are the same as in
  the run on that security alone.
\<close>

theorem partition_independence:
  assumes "\<forall>t\<in>set xs. Trade.ticker t = a \<and> Trade.quantity t > 0"
    and "\<forall>t\<in>set ys. Trade.ticker t = b \<and> Trade.quantity t > 0"
    and "a \<noteq> b"
    and "zs \<in> shuffles xs ys"
  shows "fst (calculate m (self\<lparr>trades := zs\<rparr>)) = Inr () \<and>
         filter (\<lambda>c. ClosedTrade.ticker c = a) (realized_profits (snd (calculate m (self\<lparr>trades := zs\<rparr>)))) =
           realized_profits (snd (calculate m (self\<lparr>trades := xs\<rparr>))) \<and>
         filter (\<lambda>c. ClosedTrade.ticker c = b) (realized_profits (snd (calculate m (self\<lparr>trades := zs\<rparr>)))) =
           realized_profits (snd (calculate m (self\<lparr>trades := ys\<rparr>))) \<and>
         map_of (open_positions (snd (calculate m (self\<lparr>trades := zs\<rparr>)))) a =
           map_of (open_positions (snd (calculate m (self\<lparr>trades := xs\<rparr>)))) a \<and>
         map_of (open_positions (snd (calculate m (self\<lparr>trades := zs\<rparr>)))) b =
           map_of (open_positions (snd (calculate m (self\<lparr>trades := ys\<rparr>)))) b"
proof -
  have xa: "\<forall>t\<in>set xs. Trade.ticker t = a" and xb: "\<forall>t\<in>set xs. Trade.ticker t \<noteq> b"
    and ya: "\<forall>t\<in>set ys. Trade.ticker t \<noteq> a" and yb: "\<forall>t\<in>set ys. Trade.ticker t = b"
    using assms(1,2,3) by auto
  have okx: "buys_ok xs" and oky: "buys_ok ys"
    using assms(1,2) by (auto simp: buys_ok_def)
  have zs': "zs \<in> shuffles ys xs" using assms(4) by (simp add: shuffles_commutes)
  have "set zs = set xs \<union> set ys" using assms(4) by (rule set_shuffles)
  with okx oky have "buys_ok (trades (self\<lparr>trades := zs\<rparr>))" by (auto simp: buys_ok_def)
  then have "fst (calculate m (self\<lparr>trades := zs\<rparr>)) = Inr ()"
    by (simp add: calculate_ok)
  then show ?thesis
    using interleaved_side [OF assms(4) xa ya okx oky, where m = m and self = self]
          interleaved_side [OF zs' yb xb oky okx, where m = m and self = self]
    by simp
qed

theorem partition_independence_witness:
  "interleaved \<in> shuffles aapl_trades msft_trades \<and>
   fst (calculate ''FIFO'' (fresh_calculator\<lparr>trades := interleaved\<rparr>)) = Inr () \<and>
   filter (\<lambda>c. ClosedTrade.ticker c = ''AAPL'')
     (realized_profits (snd (calculate ''FIFO'' (fresh_calculator\<lparr>trades := interleaved\<rparr>)))) =
     realized_profits (snd (calculate ''FIFO'' (fresh_calculator\<lparr>trades := aapl_trades\<rparr>))) \<and>
   filter (\<lambda>c. ClosedTrade.ticker c = ''MSFT'')
     (realized_profits (snd (calculate ''FIFO'' (fresh_calculator\<lparr>trades := interleaved\<rparr>)))) =
     realized_profits (snd (calculate ''FIFO'' (fresh_calculator\<lparr>trades := msft_trades\<rparr>))) \<and>
   map_of (open_positions (snd (calculate ''FIFO'' (fresh_calculator\<lparr>trades := interleaved\<rparr>)))) ''AAPL'' =
     map_of (open_positions (snd (calculate ''FIFO'' (fresh_calculator\<lparr>trades := aapl_trades\<rparr>)))) ''AAPL'' \<and>
   map_of (open_positions (snd (calculate ''FIFO'' (fresh_calculator\<lparr>trades := interleaved\<rparr>)))) ''MSFT'' =
     map_of (open_positions (snd (calculate ''FIFO'' (fresh_calculator\<lparr>trades := msft_trades\<rparr>)))) ''MSFT'' \<and>
   map cost_basis (realized_profits (snd (calculate ''FIFO'' (fresh_calculator\<lparr>trades := aapl_trades\<rparr>)))) = [500]"
proof -
  have x: "\<forall>t\<in>set aapl_trades. Trade.ticker t = ''AAPL'' \<and> Trade.quantity t > 0"
    by (simp add: aapl_trades_def create_trade_def)
  have y: "\<forall>t\<in>set msft_trades. Trade.ticker t = ''MSFT'' \<and> Trade.quantity t > 0"
    by (simp add: msft_trades_def create_trade_def)
  have n: "''AAPL'' \<noteq> ''MSFT''" by simp
  have z: "interleaved \<in> shuffles aapl_trades msft_trades"
    by (simp add: interleaved_def aapl_trades_def msft_trades_def)
  have c: "map cost_basis (realized_profits (snd (calculate ''FIFO'' (fresh_calculator\<lparr>trades := aapl_trades\<rparr>)))) = [500]"
    by (simp add: engine_defs aapl_trades_def fresh_calculator_def fifo_consume.simps)
  show ?thesis
    using z c partition_independence [OF x y n z, of "''FIFO''" fresh_calculator] by blast
qed

section \<open>What a sale changes in the ledger\<close>















section \<open>The epsilon cleanup\<close>

lemma sum_list_positive: "xs \<noteq> [] \<Longrightarrow> \<forall>x\<in>set xs. (0::real) < x \<Longrightarrow> 0 < sum_list xs"
  by (induction xs) (auto intro: add_pos_nonneg sum_list_nonneg less_imp_le)

lemma total_qty_positive:
  "ledger \<noteq> [] \<Longrightarrow> \<forall>l\<in>set ledger. 0 < Lot.quantity l \<Longrightarrow> 0 < total_qty ledger"
  using sum_list_positive [of "map Lot.quantity ledger"]
  by (simp add: total_qty_def sum_py_sum_list)

lemma fifo_consume_positive:
  "\<forall>l\<in>set ledger. 0 < Lot.quantity l \<Longrightarrow>
   \<forall>l\<in>set (snd (snd (fifo_consume q cb ledger))). 0 < Lot.quantity l"
proof (induction ledger arbitrary: q cb)
  case Nil
  show ?case by (simp add: fifo_consume_Nil)
next
  case (Cons h rest)
  then show ?case
    by (auto simp: fifo_consume_Cons)
qed

lemma avg_consume_cleanup:
  assumes "\<forall>l\<in>set ledger. 0 < Lot.quantity l"
  shows "\<forall>l\<in>set (snd (avg_consume q ledger)). 1 / 10 ^ 9 \<le> Lot.quantity l"
proof (cases "ledger = []")
  case True
  then show ?thesis by (simp add: avg_consume_filter)
next
  case False
  then have "0 < total_qty ledger" using assms by (rule total_qty_positive)
  then show ?thesis by (auto simp: avg_consume_filter not_less)
qed

lemma consume_positive:
  assumes "\<forall>l\<in>set ledger. 0 < Lot.quantity l"
  shows "\<forall>l\<in>set (snd (consume m q ledger)). 0 < Lot.quantity l"
proof -
  have e: "(0::real) < 1 / 10 ^ 9" by simp
  have "\<forall>l\<in>set (snd (avg_consume q ledger)). 0 < Lot.quantity l"
    using avg_consume_cleanup [OF assms, of q] e by (meson less_le_trans)
  then show ?thesis
    using fifo_consume_positive [OF assms, of q 0] assms
    by (auto simp: consume_def split: prod.splits)
qed

lemma process_trades_positive:
  assumes "\<forall>t\<in>set ts. 0 < Trade.quantity t" and "\<forall>l\<in>set ledger. 0 < Lot.quantity l"
  shows "\<exists>ledger'. fst (process_trades k m ts (ledger, rp)) = Inr ledger' \<and>
           (\<forall>l\<in>set ledger'. 0 < Lot.quantity l)"
  using assms
proof (induction ts arbitrary: ledger rp)
  case Nil
  then show ?case by simp
next
  case (Cons t ts)
  from Cons.prems have pos: "0 < Trade.quantity t" and rest: "\<forall>t\<in>set ts. 0 < Trade.quantity t"
    by simp_all
  show ?case
  proof (cases "direction t")
    case BUY
    have "\<forall>l\<in>set (ledger @ [make_lot t]). 0 < Lot.quantity l"
      using Cons.prems(2) pos by (auto simp: make_lot_def)
    from Cons.IH [OF rest this, of rp] BUY pos show ?thesis
      by (simp add: process_trade_BUY)
  next
    case SELL
    from Cons.IH [OF rest consume_positive [OF Cons.prems(2)]] SELL show ?thesis
      by (simp add: process_trade_SELL)
  qed
qed

lemma process_trades_append:
  "process_trades k m (xs @ ys) (ledger, rp) =
     (case process_trades k m xs (ledger, rp) of
        (Inl e, rp') \<Rightarrow> (Inl e, rp')
      | (Inr ledger', rp') \<Rightarrow> process_trades k m ys (ledger', rp'))"
proof (induction xs arbitrary: ledger rp)
  case Nil
  show ?case by simp
next
  case (Cons t xs)
  show ?case
  proof (cases "process_trade k m t (ledger, rp)")
    case (Inl e)
    then show ?thesis by simp
  next
    case (Inr st)
    obtain l' rp' where "st = (l', rp')" by (cases st)
    with Inr Cons.IH [of l' rp'] show ?thesis by simp
  qed
qed

lemma process_trades_buys:
  assumes "\<forall>t\<in>set ts. is_buy t \<and> Trade.quantity t \<noteq> 0"
  shows "process_trades k m ts (ledger, rp) = (Inr (ledger @ map make_lot ts), rp)"
  using assms
proof (induction ts arbitrary: ledger)
  case Nil
  show ?case by simp
next
  case (Cons t ts)
  then show ?case by (simp add: process_trade_BUY is_buy_def)
qed

lemma avg_after_sale:
  assumes "\<forall>t\<in>set (pre @ s # post). 0 < Trade.quantity t" and "is_sell s" and "\<forall>t\<in>set post. is_buy t"
  shows "\<exists>ledger. fst (process_trades k ''AVG'' (pre @ s # post) ([], rp)) = Inr (ledger @ map make_lot post) \<and>
           (\<forall>l\<in>set ledger. 1 / 10 ^ 9 \<le> Lot.quantity l)"
proof -
  from assms(1) have p: "\<forall>t\<in>set pre. 0 < Trade.quantity t" by simp
  obtain l1 where l1: "fst (process_trades k ''AVG'' pre ([], rp)) = Inr l1"
    and pos: "\<forall>l\<in>set l1. 0 < Lot.quantity l"
    using process_trades_positive [OF p, of "[]" k "''AVG''" rp] by auto
  obtain rp1 where r1: "process_trades k ''AVG'' pre ([], rp) = (Inr l1, rp1)"
    using l1 by (cases "process_trades k ''AVG'' pre ([], rp)") simp
  let ?l2 = "snd (avg_consume (Trade.quantity s) l1)"
  from assms(1) have "\<forall>t\<in>set post. 0 < Trade.quantity t" by simp
  with assms(3) have b: "\<forall>t\<in>set post. is_buy t \<and> Trade.quantity t \<noteq> 0"
    by fastforce
  have "fst (process_trades k ''AVG'' (pre @ s # post) ([], rp)) = Inr (?l2 @ map make_lot post)"
    using assms(2) process_trades_append [of k "''AVG''" pre "s # post" "[]" rp]
    by (simp add: r1 process_trade_SELL is_sell_def consume_def process_trades_buys [OF b])
  with avg_consume_cleanup [OF pos, of "Trade.quantity s"] show ?thesis by blast
qed

text \<open>
  C3 on \<open>dust_trades\<close>, BUY 1 @ 1 and SELL \<open>1 - 1 / 2 ^ 40\<close> @ 1. Under FIFO the partial
  consumption leaves the lot with a remaining quantity of \<open>1 / 2 ^ 40\<close>, below \<open>1e-9\<close>,
  and the lot is in the open-position output, where the statement has it removed. Under
  AVG the same sale leaves the same remaining quantity and the cleanup removes the lot
  (in general, by \<open>avg_after_sale\<close>, no lot below \<open>1e-9\<close> survives a sale under AVG).
\<close>

theorem fifo_keeps_dust_lot:
  "open_positions (snd (calculate ''FIFO'' (fresh_calculator\<lparr>trades := dust_trades\<rparr>))) =
     [(''AAPL'', [\<lparr> Lot.date = 1, quantity = 1 / 2 ^ 40, unit_cost = 1, price_paid = 1, fees_paid = 0 \<rparr>])] \<and>
   (1::real) / 2 ^ 40 < 1 / 10 ^ 9 \<and>
   open_positions (snd (calculate ''AVG'' (fresh_calculator\<lparr>trades := dust_trades\<rparr>))) =
     [(''AAPL'', [])]"
  by (simp add: engine_defs dust_trades_def fresh_calculator_def fifo_consume.simps)

section \<open>Selling more than is held\<close>

lemma total_qty_Cons: "total_qty (h # rest) = Lot.quantity h + total_qty rest"
  by (simp add: total_qty_def sum_py_sum_list)

lemma total_cost_Cons: "total_cost (h # rest) = Lot.quantity h * unit_cost h + total_cost rest"
  by (simp add: total_cost_def sum_py_sum_list)

lemma total_qty_nonneg: "\<forall>l\<in>set ledger. 0 \<le> Lot.quantity l \<Longrightarrow> 0 \<le> total_qty ledger"
  by (auto intro!: sum_list_nonneg simp: total_qty_def sum_py_sum_list)

lemma fifo_consume_oversell:
  assumes "\<forall>l\<in>set ledger. 0 \<le> Lot.quantity l" and "total_qty ledger < q"
  shows "fifo_consume q cb ledger = (q - total_qty ledger, cb + total_cost ledger, [])"
  using assms
proof (induction ledger arbitrary: q cb)
  case Nil
  then show ?case by (simp add: fifo_consume_Nil total_qty_def total_cost_def sum_py_def)
next
  case (Cons h rest)
  from Cons.prems have nn: "\<forall>l\<in>set rest. 0 \<le> Lot.quantity l" and h: "0 \<le> Lot.quantity h" by simp_all
  have r: "0 \<le> total_qty rest" using nn by (rule total_qty_nonneg)
  from Cons.prems(2) have lt: "total_qty rest < q - Lot.quantity h"
    by (simp add: total_qty_Cons)
  with r h have "0 < q" and "Lot.quantity h \<le> q" by simp_all
  then show ?case
    using Cons.IH [OF nn lt] by (simp add: fifo_consume_Cons total_qty_Cons total_cost_Cons)
qed

lemma avg_consume_oversell:
  assumes "\<forall>l\<in>set ledger. 0 \<le> Lot.quantity l" and "0 < total_qty ledger" and "total_qty ledger < q"
  shows "avg_consume q ledger = (q * (total_cost ledger / total_qty ledger), [])"
proof -
  let ?r = "(total_qty ledger - q) / total_qty ledger"
  have "?r < 0" using assms(2,3) by (simp add: divide_neg_pos)
  then have "Lot.quantity l * ?r < 1 / 10 ^ 9" if "l \<in> set ledger" for l
  proof -
    from that assms(1) have "0 \<le> Lot.quantity l" by simp
    with \<open>?r < 0\<close> have "Lot.quantity l * ?r \<le> 0"
      by (intro mult_nonneg_nonpos) auto
    moreover have "(0::real) < 1 / 10 ^ 9" by simp
    ultimately show ?thesis by (rule le_less_trans)
  qed
  then have "filter (\<lambda>lot. \<not> Lot.quantity lot < 1 / 10 ^ 9)
               (map (\<lambda>lot. lot\<lparr>Lot.quantity := Lot.quantity lot * ?r\<rparr>) ledger) = []"
    by (simp add: filter_empty_conv)
  with assms(2) show ?thesis by (simp add: avg_consume_filter)
qed

text \<open>
  C2 on \<open>oversell_trades\<close>, BUY 10 @ 100 and SELL 15 @ 180. Before the sale the ledger
  holds 10 units that cost 1000. Under FIFO the ClosedTrade has cost basis 1000, as the
  claim says. Under AVG the ledger is emptied too, but the cost basis is
  \<open>15 * 100 = 1500\<close>: the cost of 15 units, of which only 10 were held.
\<close>

theorem avg_oversell_cost_basis:
  "process_trades ''AAPL'' ''AVG'' (take 1 oversell_trades) ([], []) =
     (Inr [\<lparr> Lot.date = 1, quantity = 10, unit_cost = 100, price_paid = 1000, fees_paid = 0 \<rparr>], []) \<and>
   total_cost [\<lparr> Lot.date = 1, quantity = 10, unit_cost = 100, price_paid = 1000, fees_paid = 0 \<rparr>] = 1000 \<and>
   map cost_basis (realized_profits (snd (calculate ''AVG'' (fresh_calculator\<lparr>trades := oversell_trades\<rparr>)))) = [1500] \<and>
   open_positions (snd (calculate ''AVG'' (fresh_calculator\<lparr>trades := oversell_trades\<rparr>))) = [(''AAPL'', [])] \<and>
   map cost_basis (realized_profits (snd (calculate ''FIFO'' (fresh_calculator\<lparr>trades := oversell_trades\<rparr>)))) = [1000]"
  by (simp add: engine_defs oversell_trades_def fresh_calculator_def fifo_consume.simps)

end
